theory Spec2Isabelle
  imports Complex_Main "HOL-Library.Product_Lexorder"
begin

section \<open>Workflow memory: a shallow embedding of the Python sources\<close>

text \<open>
  The development embeds three modules of the repository:
  \<^item> \<^verbatim>\<open>src/memory/database.py\<close>: the tables the other two modules read and write;
  \<^item> \<^verbatim>\<open>src/memory/embedding_store.py\<close>: \<^verbatim>\<open>EmbeddingStore\<close> and \<^verbatim>\<open>KeywordExtractor\<close>;
  \<^item> \<^verbatim>\<open>src/memory/workflow_manager.py\<close>: \<^verbatim>\<open>WorkflowManager\<close>.

  Conventions. Python \<^verbatim>\<open>int\<close> is \<^typ>\<open>int\<close>. Python \<^verbatim>\<open>float\<close> is idealised as
  \<^typ>\<open>real\<close>: rounding is not modelled. Text is ASCII \<^typ>\<open>string\<close>. A JSON text column
  holds the value that \<^verbatim>\<open>json_dumps\<close> serialised and \<^verbatim>\<open>json_loads\<close> reads back.
  An exception is a value \<open>Inl e\<close> of a sum type. A table is the list of its rows in
  storage order. \<^verbatim>\<open>CURRENT_TIMESTAMP\<close> is the argument \<open>now\<close> of the operation.
\<close>

subsection \<open>Values and rows\<close>

datatype json =
    JNull
  | JBool bool
  | JInt int
  | JStr string
  | JList "json list"
  | JObj "(string \<times> json) list"

type_synonym pydict = "(string \<times> json) list"

type_synonym timestamp = nat

datatype error = TypeError | ZeroDivisionError | IntegrityError | OperationalError

text \<open>The messages the modules hand to \<^verbatim>\<open>logger\<close>, by level and content.\<close>

datatype log_event =
    Info_recorded_workflow int string
  | Warning_workflow_not_found int
  | Debug_updated_workflow int real
  | Debug_stored_embedding string int

record workflow_row =
  wf_id :: int
  user_id :: int
  category :: string
  intent_type :: string
  wf_keywords :: string
  original_prompt :: string
  summary :: string
  steps :: "json list"
  parameters :: pydict
  success_rate :: real
  success_count :: int
  total_count :: int
  rating :: int
  is_template :: int
  created_at :: timestamp
  updated_at :: timestamp

record execution_row =
  ex_id :: int
  workflow_id :: int
  ex_user_id :: int
  status :: string
  step_results :: "json list option"
  error_message :: "string option"
  started_at :: timestamp
  completed_at :: "timestamp option"

record embedding_row =
  content_id :: int
  table_name :: string
  content :: string
  embedding :: "real list"
  metadata :: "pydict option"
  emb_created_at :: timestamp
  emb_updated_at :: timestamp

text \<open>
  The state: the three tables of the SQLite file and the log. The schema file
  \<^verbatim>\<open>database/schema.sql\<close> is not part of the sources; the columns are those the
  statements in the two modules name.
\<close>

record state =
  workflows :: "workflow_row list"
  workflow_executions :: "execution_row list"
  embeddings :: "embedding_row list"
  logged :: "log_event list"

text \<open>
  The collaborators the code calls but does not define:
  \<^item> \<open>embed_text\<close>: \<^verbatim>\<open>SentenceTransformer.encode\<close>;
  \<^item> \<open>fts_query\<close>: the FTS5 query of \<^verbatim>\<open>search_keyword\<close> over \<^verbatim>\<open>workflows_fts\<close>, from the
    keywords, the category parameter and the limit to the rows it returns;
  \<^item> \<open>has_embedding_store\<close>: whether the manager was given an embedding store;
  \<^item> \<open>foreign_keys\<close>: whether the schema declares \<^verbatim>\<open>workflow_executions.workflow_id\<close> a
    foreign key (the connection sets \<^verbatim>\<open>PRAGMA foreign_keys = ON\<close>).
\<close>

record keyword_row =
  kw_content_id :: int
  kw_content :: string
  relevance :: real

record env =
  embed_text :: "string \<Rightarrow> real list"
  fts_query :: "string list \<Rightarrow> string \<Rightarrow> int \<Rightarrow> keyword_row list"
  has_embedding_store :: bool
  foreign_keys :: bool

subsection \<open>Python and SQL primitives\<close>

text \<open>Truthiness of an optional list (\<^verbatim>\<open>if new_steps:\<close>, \<^verbatim>\<open>parameters or {}\<close>).\<close>

definition truthy :: "'a list option \<Rightarrow> bool" where
  "truthy x = (case x of None \<Rightarrow> False | Some xs \<Rightarrow> xs \<noteq> [])"

text \<open>\<^verbatim>\<open>LIMIT ?\<close>: a negative bound is no bound in SQLite.\<close>

definition sql_limit :: "int \<Rightarrow> 'a list \<Rightarrow> 'a list" where
  "sql_limit n xs = (if n < 0 then xs else take (nat n) xs)"

text \<open>The slice \<^verbatim>\<open>xs[:n]\<close>: a negative bound counts from the end.\<close>

definition py_slice_to :: "int \<Rightarrow> 'a list \<Rightarrow> 'a list" where
  "py_slice_to n xs = (if n < 0 then take (length xs - nat (- n)) xs else take (nat n) xs)"

text \<open>\<^verbatim>\<open>cursor.lastrowid\<close> of an insert into a rowid table: one more than the largest.\<close>

definition next_rowid :: "int list \<Rightarrow> int" where
  "next_rowid ids = 1 + fold max ids 0"

text \<open>A dict keeps insertion order; assigning to a present key keeps its place.\<close>

fun dict_set :: "'k \<Rightarrow> 'v \<Rightarrow> ('k \<times> 'v) list \<Rightarrow> ('k \<times> 'v) list" where
  "dict_set k v [] = [(k, v)]"
| "dict_set k v ((k', v') # kvs) =
     (if k = k' then (k, v) # kvs else (k', v') # dict_set k v kvs)"

text \<open>
  The operator \<^verbatim>\<open>&\<close>: between two sets it is the intersection; a list operand has no
  such operator and the set's reflected one refuses it, so Python raises TypeError.
\<close>

datatype pyval = PyList "string list" | PySet "string set"

fun py_and :: "pyval \<Rightarrow> pyval \<Rightarrow> error + string set" where
  "py_and (PySet a) (PySet b) = Inr (a \<inter> b)"
| "py_and (PyList a) b = Inl TypeError"
| "py_and a (PyList b) = Inl TypeError"

text \<open>\<^verbatim>\<open>str.split(",")\<close>, \<^verbatim>\<open>",".join\<close>, \<^verbatim>\<open>str.lower\<close> and \<^verbatim>\<open>str.split()\<close> on ASCII text.\<close>

fun split_on :: "char \<Rightarrow> string \<Rightarrow> string list" where
  "split_on d [] = [[]]"
| "split_on d (c # cs) =
     (if c = d then [] # split_on d cs
      else (case split_on d cs of [] \<Rightarrow> [[c]] | w # ws \<Rightarrow> (c # w) # ws))"

fun join :: "string \<Rightarrow> string list \<Rightarrow> string" where
  "join sep [] = []"
| "join sep [w] = w"
| "join sep (w # ws) = w @ sep @ join sep ws"

definition is_upper :: "char \<Rightarrow> bool" where
  "is_upper c = (65 \<le> (of_char c :: nat) \<and> (of_char c :: nat) \<le> 90)"

definition is_lower :: "char \<Rightarrow> bool" where
  "is_lower c = (97 \<le> (of_char c :: nat) \<and> (of_char c :: nat) \<le> 122)"

definition is_digit :: "char \<Rightarrow> bool" where
  "is_digit c = (48 \<le> (of_char c :: nat) \<and> (of_char c :: nat) \<le> 57)"

definition is_space :: "char \<Rightarrow> bool" where
  "is_space c = (let n = (of_char c :: nat) in (9 \<le> n \<and> n \<le> 13) \<or> (28 \<le> n \<and> n \<le> 32))"

definition lower_char :: "char \<Rightarrow> char" where
  "lower_char c = (if is_upper c then char_of ((of_char c :: nat) + 32) else c)"

definition lower :: "string \<Rightarrow> string" where
  "lower s = map lower_char s"

text \<open>The maximal runs of characters satisfying \<open>P\<close>, left to right.\<close>

fun runs :: "(char \<Rightarrow> bool) \<Rightarrow> string \<Rightarrow> string \<Rightarrow> string list" where
  "runs P cur [] = (if cur = [] then [] else [cur])"
| "runs P cur (c # cs) =
     (if P c then runs P (cur @ [c]) cs
      else (if cur = [] then [] else [cur]) @ runs P [] cs)"

definition split_ws :: "string \<Rightarrow> string list" where
  "split_ws s = runs (\<lambda>c. \<not> is_space c) [] s"

subsection \<open>embedding\_store.py: KeywordExtractor\<close>

definition STOPWORDS :: "string list" where
  "STOPWORDS =
    [''a'', ''an'', ''the'', ''and'', ''or'', ''but'', ''is'', ''are'', ''was'', ''were'',
     ''be'', ''been'', ''being'', ''have'', ''has'', ''had'', ''do'', ''does'', ''did'',
     ''will'', ''would'', ''could'', ''should'', ''may'', ''might'', ''must'', ''shall'',
     ''can'', ''to'', ''of'', ''in'', ''for'', ''on'', ''with'', ''at'', ''by'', ''from'',
     ''as'', ''into'', ''through'', ''during'', ''before'', ''after'', ''above'',
     ''below'', ''between'', ''under'', ''again'', ''further'', ''then'', ''once'',
     ''here'', ''there'', ''when'', ''where'', ''why'', ''how'', ''all'', ''each'',
     ''few'', ''more'', ''most'', ''other'', ''some'', ''such'', ''no'', ''nor'', ''not'',
     ''only'', ''own'', ''same'', ''so'', ''than'', ''too'', ''very'', ''just'', ''also'',
     ''now'', ''this'', ''that'', ''these'', ''those'', ''i'', ''me'', ''my'', ''we'', ''our'',
     ''you'', ''your'', ''he'', ''him'', ''his'', ''she'', ''her'', ''it'', ''its'', ''they'',
     ''them'', ''their'', ''what'', ''which'', ''who'', ''whom'', ''how'', ''please'',
     ''thanks'', ''thank'', ''sorry'', ''help'', ''make'', ''want'', ''like'', ''know'',
     ''think'', ''take'', ''see'', ''come'', ''want'', ''use'', ''find'', ''give'', ''tell'']"

text \<open>
  \<^verbatim>\<open>re.findall(r'\b[a-zA-Z]{2,}\b', text)\<close>: a match starts and ends at a word boundary
  and holds letters only, so it is a whole maximal run of word characters (letters,
  digits, underscore) that has at least two characters, all of them letters.
\<close>

definition is_letter :: "char \<Rightarrow> bool" where
  "is_letter c = (is_upper c \<or> is_lower c)"

definition is_word_char :: "char \<Rightarrow> bool" where
  "is_word_char c = (is_letter c \<or> is_digit c \<or> c = CHR ''_'')"

definition findall_words :: "string \<Rightarrow> string list" where
  "findall_words text =
     filter (\<lambda>w. 2 \<le> length w \<and> list_all is_letter w) (runs is_word_char [] text)"

text \<open>
  \<^verbatim>\<open>Counter(keywords).most_common(n)\<close>: the distinct words in order of first occurrence,
  sorted by count, largest first, words of equal count in that order; the first \<open>n\<close>.
\<close>

definition first_occurrences :: "'a list \<Rightarrow> 'a list" where
  "first_occurrences xs = rev (remdups (rev xs))"

definition ranked :: "string list \<Rightarrow> string list" where
  "ranked ws = sort_key (\<lambda>w. - int (count_list ws w)) (first_occurrences ws)"

definition most_common :: "nat \<Rightarrow> string list \<Rightarrow> string list" where
  "most_common n ws = take n (ranked ws)"

definition candidate_words :: "string \<Rightarrow> string list" where
  "candidate_words text =
     filter (\<lambda>word. word \<notin> set STOPWORDS \<and> length word > 2) (findall_words (lower text))"

definition extract_keywords :: "nat \<Rightarrow> string \<Rightarrow> string list" where
  "extract_keywords max_keywords text = most_common max_keywords (candidate_words text)"

definition extract_as_string :: "nat \<Rightarrow> string \<Rightarrow> string" where
  "extract_as_string max_keywords text = join '','' (extract_keywords max_keywords text)"

text \<open>The default of \<^verbatim>\<open>KeywordExtractor.__init__\<close>.\<close>

definition default_max_keywords :: nat where
  "default_max_keywords = 10"

subsection \<open>embedding\_store.py: EmbeddingStore\<close>

text \<open>
  \<^verbatim>\<open>store_embedding\<close>: \<^verbatim>\<open>INSERT ... ON CONFLICT(content_id, table_name) DO UPDATE\<close>. A row
  with the key has its content, embedding, metadata and \<^verbatim>\<open>updated_at\<close> overwritten; with
  no such row, one is appended. Empty or absent metadata is stored as NULL.
\<close>

definition same_key :: "int \<Rightarrow> string \<Rightarrow> embedding_row \<Rightarrow> bool" where
  "same_key cid tname r = (content_id r = cid \<and> table_name r = tname)"

definition upsert_embedding ::
  "timestamp \<Rightarrow> int \<Rightarrow> string \<Rightarrow> string \<Rightarrow> real list \<Rightarrow> pydict option \<Rightarrow>
   embedding_row list \<Rightarrow> embedding_row list" where
  "upsert_embedding now cid tname text vec meta rows =
     (if list_ex (same_key cid tname) rows
      then map (\<lambda>r. if same_key cid tname r
                     then r\<lparr>content := text, embedding := vec, metadata := meta,
                            emb_updated_at := now\<rparr>
                     else r) rows
      else rows @ [\<lparr>content_id = cid, table_name = tname, content = text, embedding = vec,
                     metadata = meta, emb_created_at = now, emb_updated_at = now\<rparr>])"

definition store_embedding ::
  "env \<Rightarrow> timestamp \<Rightarrow> int \<Rightarrow> string \<Rightarrow> string \<Rightarrow> real list option \<Rightarrow> pydict option \<Rightarrow>
   state \<Rightarrow> state" where
  "store_embedding e now cid tname text emb meta s =
     (let vec = (case emb of None \<Rightarrow> embed_text e text | Some v \<Rightarrow> v);
          metadata_json = (if truthy meta then meta else None)
      in s\<lparr>embeddings := upsert_embedding now cid tname text vec metadata_json (embeddings s),
           logged := logged s @ [Debug_stored_embedding tname cid]\<rparr>)"

text \<open>
  \<^verbatim>\<open>search_similar\<close> embeds the query and hands \<^verbatim>\<open>fetchall\<close> a statement that scores a
  row with \<^verbatim>\<open>1 - (embedding <=> CAST(? AS BLOB))\<close>. The connection is the SQLite
  connection \<^verbatim>\<open>database.py\<close> opens with \<^verbatim>\<open>aiosqlite.connect\<close>, and SQLite has no operator
  \<^verbatim>\<open><=>\<close>: the statement does not parse, and \<^verbatim>\<open>conn.execute\<close> raises
  \<^verbatim>\<open>sqlite3.OperationalError\<close> whatever the table holds. The filter by threshold that
  follows the query in the source is kept in the definition; no call reaches it.
\<close>

record semantic_result =
  sr_content_id :: int
  sr_content :: string
  sr_metadata :: "pydict option"
  similarity :: real

definition default_limit :: int where
  "default_limit = 10"

definition default_threshold :: real where
  "default_threshold = 1 / 2"

definition fetchall_similarity ::
  "real list \<Rightarrow> string \<Rightarrow> int \<Rightarrow> state \<Rightarrow> error + semantic_result list" where
  "fetchall_similarity query_embedding tname limit s = Inl OperationalError"

definition search_similar ::
  "env \<Rightarrow> string \<Rightarrow> string \<Rightarrow> int \<Rightarrow> real \<Rightarrow> state \<Rightarrow> error + semantic_result list"
  where
  "search_similar e query tname limit threshold s =
     (let query_embedding = embed_text e query
      in case fetchall_similarity query_embedding tname limit s of
           Inl err \<Rightarrow> Inl err
         | Inr results \<Rightarrow> Inr (filter (\<lambda>r. similarity r \<ge> threshold) results))"

text \<open>\<^verbatim>\<open>search_keyword\<close>: no keyword, no query; otherwise the FTS5 query.\<close>

definition search_keyword :: "env \<Rightarrow> string \<Rightarrow> string \<Rightarrow> int \<Rightarrow> keyword_row list" where
  "search_keyword e query tname limit =
     (let kws = split_ws (lower query)
      in if kws = [] then [] else fts_query e kws tname limit)"

text \<open>
  \<^verbatim>\<open>hybrid_search\<close>. An entry of \<^verbatim>\<open>combined_scores\<close> carries the keys of the result it
  came from (\<open>h_similarity\<close> and \<open>h_metadata\<close> from a semantic result, \<open>h_relevance\<close> from a
  keyword result) and the three scores.
\<close>

record hybrid_result =
  h_content_id :: int
  h_content :: string
  h_metadata :: "pydict option"
  h_similarity :: "real option"
  h_relevance :: "real option"
  semantic_score :: real
  keyword_score :: real
  combined_score :: real

definition semantic_entry :: "real \<Rightarrow> semantic_result \<Rightarrow> hybrid_result" where
  "semantic_entry semantic_weight r =
     \<lparr>h_content_id = sr_content_id r, h_content = sr_content r, h_metadata = sr_metadata r,
      h_similarity = Some (similarity r), h_relevance = None,
      semantic_score = similarity r, keyword_score = 0,
      combined_score = similarity r * semantic_weight\<rparr>"

definition keyword_entry :: "real \<Rightarrow> keyword_row \<Rightarrow> hybrid_result" where
  "keyword_entry keyword_weight r =
     \<lparr>h_content_id = kw_content_id r, h_content = kw_content r, h_metadata = None,
      h_similarity = None, h_relevance = Some (relevance r),
      semantic_score = 0, keyword_score = 1 / (relevance r + 1),
      combined_score = (1 / (relevance r + 1)) * keyword_weight\<rparr>"

fun semantic_loop ::
  "real \<Rightarrow> semantic_result list \<Rightarrow> (int \<times> hybrid_result) list \<Rightarrow> (int \<times> hybrid_result) list"
  where
  "semantic_loop sw [] d = d"
| "semantic_loop sw (r # rs) d =
     semantic_loop sw rs (dict_set (sr_content_id r) (semantic_entry sw r) d)"

fun keyword_loop ::
  "real \<Rightarrow> real \<Rightarrow> keyword_row list \<Rightarrow> (int \<times> hybrid_result) list \<Rightarrow>
   error + (int \<times> hybrid_result) list" where
  "keyword_loop sw kw [] d = Inr d"
| "keyword_loop sw kw (r # rs) d =
     (if relevance r + 1 = 0 then Inl ZeroDivisionError
      else (case map_of d (kw_content_id r) of
              Some h \<Rightarrow>
                keyword_loop sw kw rs
                  (dict_set (kw_content_id r)
                     (h\<lparr>keyword_score := 1 / (relevance r + 1),
                        combined_score :=
                          semantic_score h * sw + (1 / (relevance r + 1)) * kw\<rparr>) d)
            | None \<Rightarrow>
                keyword_loop sw kw rs (dict_set (kw_content_id r) (keyword_entry kw r) d)))"

definition hybrid_search ::
  "env \<Rightarrow> string \<Rightarrow> string \<Rightarrow> int \<Rightarrow> real \<Rightarrow> real \<Rightarrow> state \<Rightarrow> error + hybrid_result list"
  where
  "hybrid_search e query tname limit semantic_weight keyword_weight s =
     (case search_similar e query tname (limit * 2) default_threshold s of
        Inl err \<Rightarrow> Inl err
      | Inr semantic_results \<Rightarrow>
          (let keyword_results = search_keyword e query tname (limit * 2)
           in case keyword_loop semantic_weight keyword_weight keyword_results
                     (semantic_loop semantic_weight semantic_results []) of
                Inl err \<Rightarrow> Inl err
              | Inr combined_scores \<Rightarrow>
                  Inr (py_slice_to limit
                         (sort_key (\<lambda>x. - combined_score x) (map snd combined_scores)))))"

subsection \<open>workflow\_manager.py: WorkflowManager\<close>

text \<open>\<^verbatim>\<open>self.keyword_extractor = KeywordExtractor(max_keywords=15)\<close>: one extractor.\<close>

definition keyword_extractor_max_keywords :: nat where
  "keyword_extractor_max_keywords = 15"

text \<open>The keywords \<^verbatim>\<open>record_workflow\<close> stores and those \<^verbatim>\<open>find_similar_workflows\<close> queries with.\<close>

definition index_keywords :: "string \<Rightarrow> string" where
  "index_keywords prompt = extract_as_string keyword_extractor_max_keywords prompt"

definition query_keywords :: "string \<Rightarrow> string list" where
  "query_keywords prompt = extract_keywords keyword_extractor_max_keywords prompt"

definition new_workflow_row ::
  "timestamp \<Rightarrow> int \<Rightarrow> int \<Rightarrow> string \<Rightarrow> string \<Rightarrow> string \<Rightarrow> string \<Rightarrow> string \<Rightarrow>
   json list \<Rightarrow> pydict option \<Rightarrow> bool \<Rightarrow> int \<Rightarrow> workflow_row" where
  "new_workflow_row now wid uid cat intent kws prompt summ stps params templ rat =
     \<lparr>wf_id = wid, user_id = uid, category = cat, intent_type = intent, wf_keywords = kws,
      original_prompt = prompt, summary = summ, steps = stps,
      parameters = (if truthy params then the params else []),
      success_rate = 1, success_count = 1, total_count = 1, rating = rat,
      is_template = (if templ then 1 else 0), created_at = now, updated_at = now\<rparr>"

definition record_workflow ::
  "env \<Rightarrow> timestamp \<Rightarrow> int \<Rightarrow> string \<Rightarrow> string \<Rightarrow> string \<Rightarrow> string \<Rightarrow> json list \<Rightarrow>
   pydict option \<Rightarrow> bool \<Rightarrow> int \<Rightarrow> state \<Rightarrow> int \<times> state" where
  "record_workflow e now uid cat intent prompt summ stps params templ rat s =
     (let kws = index_keywords prompt;
          workflow_id = next_rowid (map wf_id (workflows s));
          s1 = s\<lparr>workflows := workflows s @
                  [new_workflow_row now workflow_id uid cat intent kws prompt summ stps
                     params templ rat]\<rparr>;
          s2 = (if has_embedding_store e
                then store_embedding e now workflow_id ''workflows'' (prompt @ '' '' @ summ) None
                       (Some [(''category'', JStr cat), (''intent_type'', JStr intent),
                              (''keywords'', JStr kws)]) s1
                else s1)
      in (workflow_id, s2\<lparr>logged := logged s2 @ [Info_recorded_workflow workflow_id summ]\<rparr>))"

text \<open>
  \<^verbatim>\<open>update_workflow_success\<close> makes two storage calls, each awaited: the
  \<^verbatim>\<open>fetchone\<close> that reads the row, and the \<^verbatim>\<open>execute\<close> that writes the counters computed
  from the row that was read.
\<close>

definition fetch_workflow :: "int \<Rightarrow> state \<Rightarrow> workflow_row option" where
  "fetch_workflow wid s = find (\<lambda>w. wf_id w = wid) (workflows s)"

definition write_success ::
  "timestamp \<Rightarrow> int \<Rightarrow> bool \<Rightarrow> json list option \<Rightarrow> workflow_row \<Rightarrow> state \<Rightarrow> state" where
  "write_success now wid was_successful new_steps workflow s =
     (let sc = success_count workflow + (if was_successful then 1 else 0);
          tc = total_count workflow + 1;
          sr = real_of_int sc / real_of_int tc
      in s\<lparr>workflows :=
             map (\<lambda>w. if wf_id w = wid
                       then (let w1 = w\<lparr>success_count := sc, total_count := tc,
                                        success_rate := sr, updated_at := now\<rparr>
                             in if truthy new_steps then w1\<lparr>steps := the new_steps\<rparr> else w1)
                       else w) (workflows s),
           logged := logged s @ [Debug_updated_workflow wid sr]\<rparr>)"

definition update_workflow_success ::
  "timestamp \<Rightarrow> int \<Rightarrow> bool \<Rightarrow> json list option \<Rightarrow> state \<Rightarrow> state" where
  "update_workflow_success now wid was_successful new_steps s =
     (case fetch_workflow wid s of
        None \<Rightarrow> s\<lparr>logged := logged s @ [Warning_workflow_not_found wid]\<rparr>
      | Some workflow \<Rightarrow> write_success now wid was_successful new_steps workflow s)"

definition get_workflow :: "int \<Rightarrow> state \<Rightarrow> workflow_row option" where
  "get_workflow wid s = fetch_workflow wid s"

text \<open>
  \<^verbatim>\<open>record_execution\<close>: the insert comes first. With the foreign key declared, an insert
  that names no workflow row fails with IntegrityError. \<^verbatim>\<open>started_at\<close> is the column's
  default.
\<close>

definition record_execution ::
  "env \<Rightarrow> timestamp \<Rightarrow> int \<Rightarrow> int \<Rightarrow> string \<Rightarrow> json list option \<Rightarrow> string option \<Rightarrow>
   state \<Rightarrow> error + (int \<times> state)" where
  "record_execution e now wid uid st results err s =
     (if foreign_keys e \<and> fetch_workflow wid s = None then Inl IntegrityError
      else
        (let execution_id = next_rowid (map ex_id (workflow_executions s));
             s1 = s\<lparr>workflow_executions := workflow_executions s @
                     [\<lparr>ex_id = execution_id, workflow_id = wid, ex_user_id = uid, status = st,
                       step_results = (if truthy results then results else None),
                       error_message = err, started_at = now, completed_at = None\<rparr>]\<rparr>
         in if st \<in> set [''completed'', ''failed'']
            then (let was_successful = (st = ''completed'');
                      s2 = update_workflow_success now wid was_successful results s1
                  in if was_successful
                     then Inr (execution_id,
                            s2\<lparr>workflow_executions :=
                                 map (\<lambda>x. if ex_id x = execution_id
                                           then x\<lparr>completed_at := Some now\<rparr> else x)
                                   (workflow_executions s2)\<rparr>)
                     else Inr (execution_id, s2))
            else Inr (execution_id, s1)))"

text \<open>
  \<^verbatim>\<open>find_similar_workflows\<close>. The candidates of the lexical phase are the user's
  workflows, of the category when one is given, in the order of the \<^verbatim>\<open>ORDER BY\<close>, at most
  \<^verbatim>\<open>limit * 2\<close> of them. The loop intersects \<^verbatim>\<open>keywords\<close>, the list \<^verbatim>\<open>extract\<close> returned,
  with the set of the row's keywords.
\<close>

definition fetch_candidates :: "int \<Rightarrow> string option \<Rightarrow> int \<Rightarrow> state \<Rightarrow> workflow_row list" where
  "fetch_candidates uid cat limit s =
     sql_limit (limit * 2)
       (sort_key (\<lambda>w. (- success_rate w, - success_count w, - rating w))
          (filter (\<lambda>w. user_id w = uid \<and> (if truthy cat then category w = the cat else True))
             (workflows s)))"

fun lexical_loop :: "string list \<Rightarrow> workflow_row list \<Rightarrow> workflow_row list \<Rightarrow>
    error + workflow_row list" where
  "lexical_loop kws [] acc = Inr acc"
| "lexical_loop kws (row # rows) acc =
     (case py_and (PyList kws) (PySet (set (split_on (CHR '','') (wf_keywords row)))) of
        Inl err \<Rightarrow> Inl err
      | Inr common \<Rightarrow>
          (if card common > 0 then lexical_loop kws rows (acc @ [row])
           else lexical_loop kws rows acc))"

definition lexical_phase ::
  "int \<Rightarrow> string \<Rightarrow> string option \<Rightarrow> int \<Rightarrow> state \<Rightarrow> error + workflow_row list" where
  "lexical_phase uid prompt cat limit s =
     lexical_loop (query_keywords prompt) (fetch_candidates uid cat limit s) []"

fun append_semantic ::
  "int \<Rightarrow> state \<Rightarrow> semantic_result list \<Rightarrow> workflow_row list \<Rightarrow> workflow_row list" where
  "append_semantic limit s [] acc = acc"
| "append_semantic limit s (r # rs) acc =
     (case get_workflow (sr_content_id r) s of
        None \<Rightarrow> append_semantic limit s rs acc
      | Some workflow \<Rightarrow>
          (if wf_id workflow \<notin> set (map wf_id acc)
           then (if int (length (acc @ [workflow])) \<ge> limit then acc @ [workflow]
                 else append_semantic limit s rs (acc @ [workflow]))
           else append_semantic limit s rs acc))"

definition semantic_phase ::
  "env \<Rightarrow> string \<Rightarrow> int \<Rightarrow> workflow_row list \<Rightarrow> state \<Rightarrow> error + workflow_row list"
  where
  "semantic_phase e prompt limit acc s =
     (if has_embedding_store e \<and> int (length acc) < limit
      then (case search_similar e prompt ''workflows'' limit default_threshold s of
              Inl err \<Rightarrow> Inl err
            | Inr semantic_results \<Rightarrow> Inr (append_semantic limit s semantic_results acc))
      else Inr acc)"

definition find_similar_workflows ::
  "env \<Rightarrow> int \<Rightarrow> string \<Rightarrow> string option \<Rightarrow> int \<Rightarrow> state \<Rightarrow> error + workflow_row list" where
  "find_similar_workflows e uid prompt cat limit s =
     (case lexical_phase uid prompt cat limit s of
        Inl err \<Rightarrow> Inl err
      | Inr acc \<Rightarrow>
          (case semantic_phase e prompt limit acc s of
             Inl err \<Rightarrow> Inl err
           | Inr found \<Rightarrow> Inr (py_slice_to limit found)))"

subsection \<open>Runs of calls and example inputs\<close>

text \<open>A sequence of \<^verbatim>\<open>record_execution\<close> calls against one workflow, one after the other.\<close>

record execution_call =
  call_now :: timestamp
  call_user_id :: int
  call_status :: string
  call_step_results :: "json list option"
  call_error_message :: "string option"

fun record_executions :: "env \<Rightarrow> int \<Rightarrow> execution_call list \<Rightarrow> state \<Rightarrow> error + state" where
  "record_executions e wid [] s = Inr s"
| "record_executions e wid (c # cs) s =
     (case record_execution e (call_now c) wid (call_user_id c) (call_status c)
             (call_step_results c) (call_error_message c) s of
        Inl err \<Rightarrow> Inl err
      | Inr (execution_id, s') \<Rightarrow> record_executions e wid cs s')"

text \<open>Collaborators and states used to run the definitions on concrete inputs.\<close>

definition env0 :: env where
  "env0 = \<lparr>embed_text = (\<lambda>t. [1]), fts_query = (\<lambda>k c l. []),
           has_embedding_store = True, foreign_keys = True\<rparr>"

definition state0 :: state where
  "state0 = \<lparr>workflows = [], workflow_executions = [], embeddings = [], logged = []\<rparr>"

definition calls3 :: "execution_call list" where
  "calls3 =
     [\<lparr>call_now = 6, call_user_id = 7, call_status = ''completed'',
       call_step_results = None, call_error_message = None\<rparr>,
      \<lparr>call_now = 7, call_user_id = 7, call_status = ''failed'',
       call_step_results = None, call_error_message = Some ''timeout''\<rparr>,
      \<lparr>call_now = 8, call_user_id = 7, call_status = ''completed'',
       call_step_results = None, call_error_message = None\<rparr>]"

text \<open>
  Two completions of \<^verbatim>\<open>update_workflow_success\<close> running as coroutines of one event loop.
  A coroutine gives up control at each \<^verbatim>\<open>await\<close>: once at the \<^verbatim>\<open>fetchone\<close> and once at the
  \<^verbatim>\<open>execute\<close>. A task is \<open>Ready\<close> before its read, \<open>Fetched\<close> with the row it read before
  its write, and \<open>Finished\<close> after. A schedule says which of the two tasks takes the next
  step (\<open>False\<close> the first, \<open>True\<close> the second).
\<close>

datatype task_state = Ready | Fetched "workflow_row option" | Finished

record completion =
  comp_now :: timestamp
  comp_workflow_id :: int
  comp_was_successful :: bool
  comp_new_steps :: "json list option"

fun step_task :: "completion \<Rightarrow> task_state \<Rightarrow> state \<Rightarrow> task_state \<times> state" where
  "step_task c Ready s = (Fetched (fetch_workflow (comp_workflow_id c) s), s)"
| "step_task c (Fetched None) s =
     (Finished, s\<lparr>logged := logged s @ [Warning_workflow_not_found (comp_workflow_id c)]\<rparr>)"
| "step_task c (Fetched (Some workflow)) s =
     (Finished, write_success (comp_now c) (comp_workflow_id c) (comp_was_successful c)
                  (comp_new_steps c) workflow s)"
| "step_task c Finished s = (Finished, s)"

fun run_two ::
  "completion \<Rightarrow> completion \<Rightarrow> bool list \<Rightarrow> task_state \<times> task_state \<times> state \<Rightarrow>
   task_state \<times> task_state \<times> state" where
  "run_two c1 c2 [] cfg = cfg"
| "run_two c1 c2 (second # sched) (t1, t2, s) =
     (if second
      then (case step_task c2 t2 s of (t2', s') \<Rightarrow> run_two c1 c2 sched (t1, t2', s'))
      else (case step_task c1 t1 s of (t1', s') \<Rightarrow> run_two c1 c2 sched (t1', t2, s')))"

definition workflow1 :: workflow_row where
  "workflow1 =
     \<lparr>wf_id = 1, user_id = 7, category = ''linkedin'', intent_type = ''connect'',
      wf_keywords = ''connect,product,manager'',
      original_prompt = ''connect with a product manager'', summary = ''done'',
      steps = [JObj [(''action'', JStr ''open'')]], parameters = [],
      success_rate = 1, success_count = 1, total_count = 1, rating = 5, is_template = 0,
      created_at = 5, updated_at = 5\<rparr>"

definition state1 :: state where
  "state1 = \<lparr>workflows = [workflow1], workflow_executions = [], embeddings = [], logged = []\<rparr>"

definition completion1 :: completion where
  "completion1 = \<lparr>comp_now = 6, comp_workflow_id = 1, comp_was_successful = True,
                   comp_new_steps = None\<rparr>"

text \<open>
  The constraint \<^verbatim>\<open>ON CONFLICT(content_id, table_name)\<close> relies on: no two rows of the
  embeddings table share a content id and a table name.
\<close>

definition unique_keys :: "embedding_row list \<Rightarrow> bool" where
  "unique_keys rows = distinct (map (\<lambda>r. (content_id r, table_name r)) rows)"

text \<open>A table with two embeddings, built with \<open>store_embedding\<close>.\<close>

definition state2 :: state where
  "state2 = store_embedding env0 7 1 ''workflows'' ''second'' None None
              (store_embedding env0 6 2 ''workflows'' ''first'' None None state0)"


text \<open>A collaborator whose full-text query returns one record, content id 9.\<close>

definition env2 :: env where
  "env2 = env0\<lparr>fts_query := (\<lambda>kws cat limit.
             [\<lparr>kw_content_id = 9, kw_content = ''keyword hit'', relevance = 0\<rparr>])\<rparr>"


section \<open>Properties\<close>

subsection \<open>Success counters\<close>

lemma le_fold_max: "(a::int) \<le> fold max ids a"
  by (induction ids arbitrary: a) (auto intro: order_trans [OF max.cobounded2])

lemma mem_le_fold_max: "x \<in> set ids \<Longrightarrow> (x::int) \<le> fold max ids a"
proof (induction ids arbitrary: a)
  case Nil
  then show ?case by simp
next
  case (Cons y ys)
  show ?case
  proof (cases "x = y")
    case True
    have "y \<le> max y a" by simp
    also have "\<dots> \<le> fold max ys (max y a)" by (rule le_fold_max)
    finally show ?thesis using True by simp
  next
    case False
    with Cons show ?thesis by simp
  qed
qed

lemma next_rowid_fresh: "next_rowid ids \<notin> set ids"
proof
  assume "next_rowid ids \<in> set ids"
  then have "next_rowid ids \<le> fold max ids 0" by (rule mem_le_fold_max)
  then show False by (simp add: next_rowid_def)
qed

lemma find_append_new:
  "\<forall>x\<in>set xs. \<not> P x \<Longrightarrow> P r \<Longrightarrow> find P (xs @ [r]) = Some r"
  by (induction xs) auto

lemma find_map_same_key:
  "(\<And>w. P (f w) = P w) \<Longrightarrow> find P (map f ws) = map_option f (find P ws)"
  by (induction ws) auto

lemma workflows_store_embedding [simp]:
  "workflows (store_embedding e now cid tname txt emb meta s) = workflows s"
  by (simp add: store_embedding_def Let_def)

lemma fetch_workflow_record_workflow:
  assumes "record_workflow e now uid cat intent prompt summ stps params templ rat s = (wid, s0)"
  shows "fetch_workflow wid s0 =
           Some (new_workflow_row now wid uid cat intent (index_keywords prompt) prompt summ stps
                   params templ rat)"
proof -
  let ?wid = "next_rowid (map wf_id (workflows s))"
  let ?row = "new_workflow_row now ?wid uid cat intent (index_keywords prompt) prompt summ stps
                   params templ rat"
  from assms have wid: "wid = ?wid" and ws: "workflows s0 = workflows s @ [?row]"
    by (auto simp: record_workflow_def Let_def split: if_splits)
  have fresh: "\<forall>w\<in>set (workflows s). \<not> wf_id w = ?wid"
    using next_rowid_fresh [of "map wf_id (workflows s)"] by (metis image_eqI list.set_map)
  have "wf_id ?row = ?wid" by (simp add: new_workflow_row_def)
  with fresh have "find (\<lambda>w. wf_id w = ?wid) (workflows s @ [?row]) = Some ?row"
    by (intro find_append_new) auto
  then show ?thesis by (simp add: fetch_workflow_def wid ws)
qed

lemma fetch_workflow_write_success:
  assumes "fetch_workflow wid s = Some w0"
  shows "\<exists>w'. fetch_workflow wid (write_success now wid ok new_steps w s) = Some w'
           \<and> total_count w' = total_count w + 1
           \<and> success_count w' = success_count w + (if ok then 1 else 0)
           \<and> success_rate w' = real_of_int (success_count w') / real_of_int (total_count w')"
proof -
  let ?f = "\<lambda>x. if wf_id x = wid
               then (let w1 = x\<lparr>success_count := success_count w + (if ok then 1 else 0),
                                total_count := total_count w + 1,
                                success_rate := real_of_int (success_count w + (if ok then 1 else 0))
                                                / real_of_int (total_count w + 1),
                                updated_at := now\<rparr>
                     in if truthy new_steps then w1\<lparr>steps := the new_steps\<rparr> else w1)
               else x"
  have key: "\<And>x. (wf_id (?f x) = wid) = (wf_id x = wid)" by (simp add: Let_def)
  have ws: "workflows (write_success now wid ok new_steps w s) = map ?f (workflows s)"
    by (simp add: write_success_def Let_def)
  have "fetch_workflow wid (write_success now wid ok new_steps w s) = map_option ?f (find (\<lambda>x. wf_id x = wid) (workflows s))"
    unfolding fetch_workflow_def ws by (rule find_map_same_key) (rule key)
  also have "\<dots> = Some (?f w0)" using assms by (simp add: fetch_workflow_def)
  finally have eq: "fetch_workflow wid (write_success now wid ok new_steps w s) = Some (?f w0)" .
  have "wf_id w0 = wid" using assms by (auto simp: fetch_workflow_def find_Some_iff)
  then show ?thesis unfolding eq by (simp add: Let_def)
qed


lemma fetch_workflow_executions_update [simp]:
  "fetch_workflow wid (s\<lparr>workflow_executions := x\<rparr>) = fetch_workflow wid s"
  by (simp add: fetch_workflow_def)

lemma record_execution_terminal:
  assumes w: "fetch_workflow wid s = Some w"
      and st: "st = ''completed'' \<or> st = ''failed''"
  shows "\<exists>eid s' w'. record_execution e now wid uid st results err s = Inr (eid, s')
           \<and> fetch_workflow wid s' = Some w'
           \<and> total_count w' = total_count w + 1
           \<and> success_count w' = success_count w + (if st = ''completed'' then 1 else 0)
           \<and> success_rate w' = real_of_int (success_count w') / real_of_int (total_count w')"
proof -
  let ?eid = "next_rowid (map ex_id (workflow_executions s))"
  let ?s1 = "s\<lparr>workflow_executions := workflow_executions s @
                     [\<lparr>ex_id = ?eid, workflow_id = wid, ex_user_id = uid, status = st,
                       step_results = (if truthy results then results else None),
                       error_message = err, started_at = now, completed_at = None\<rparr>]\<rparr>"
  let ?ok = "st = ''completed''"
  have w1: "fetch_workflow wid ?s1 = Some w" using w by simp
  then have upd: "update_workflow_success now wid ?ok results ?s1
                    = write_success now wid ?ok results w ?s1"
    by (simp add: update_workflow_success_def)
  from fetch_workflow_write_success [OF w1, of now ?ok results w]
  obtain w' where w': "fetch_workflow wid (write_success now wid ?ok results w ?s1) = Some w'"
      "total_count w' = total_count w + 1"
      "success_count w' = success_count w + (if ?ok then 1 else 0)"
      "success_rate w' = real_of_int (success_count w') / real_of_int (total_count w')"
    by blast
  show ?thesis
  proof (cases ?ok)
    case True
    then have "record_execution e now wid uid st results err s =
       Inr (?eid, (write_success now wid ?ok results w ?s1)
               \<lparr>workflow_executions :=
                   map (\<lambda>x. if ex_id x = ?eid then x\<lparr>completed_at := Some now\<rparr> else x)
                     (workflow_executions (write_success now wid ?ok results w ?s1))\<rparr>)"
      using w upd by (simp add: record_execution_def Let_def)
    with w' show ?thesis by simp
  next
    case False
    then have "record_execution e now wid uid st results err s =
       Inr (?eid, write_success now wid ?ok results w ?s1)"
      using w upd st by (simp add: record_execution_def Let_def)
    with w' show ?thesis by simp
  qed
qed

lemma record_executions_counts:
  assumes "\<forall>c\<in>set calls. call_status c = ''completed'' \<or> call_status c = ''failed''"
      and "fetch_workflow wid s = Some w"
      and "success_rate w = real_of_int (success_count w) / real_of_int (total_count w)"
  shows "\<exists>s' w'. record_executions e wid calls s = Inr s'
           \<and> fetch_workflow wid s' = Some w'
           \<and> total_count w' = total_count w + int (length calls)
           \<and> success_count w' =
               success_count w + int (length (filter (\<lambda>c. call_status c = ''completed'') calls))
           \<and> success_rate w' = real_of_int (success_count w') / real_of_int (total_count w')"
  using assms
proof (induction calls arbitrary: s w)
  case Nil
  then show ?case by simp
next
  case (Cons c cs)
  from Cons.prems(1) have st: "call_status c = ''completed'' \<or> call_status c = ''failed''"
    by simp
  from record_execution_terminal [OF Cons.prems(2) st,
      of e "call_now c" "call_user_id c" "call_step_results c" "call_error_message c"]
  obtain eid s1 w1 where
      run: "record_execution e (call_now c) wid (call_user_id c) (call_status c)
              (call_step_results c) (call_error_message c) s = Inr (eid, s1)"
    and w1: "fetch_workflow wid s1 = Some w1"
    and tc: "total_count w1 = total_count w + 1"
    and sc: "success_count w1 = success_count w + (if call_status c = ''completed'' then 1 else 0)"
    and sr: "success_rate w1 = real_of_int (success_count w1) / real_of_int (total_count w1)"
    by blast
  from Cons.prems(1) have rest: "\<forall>c\<in>set cs. call_status c = ''completed'' \<or> call_status c = ''failed''"
    by simp
  from Cons.IH [OF rest w1 sr]
  obtain s' w' where
      run': "record_executions e wid cs s1 = Inr s'"
    and w': "fetch_workflow wid s' = Some w'"
    and tc': "total_count w' = total_count w1 + int (length cs)"
    and sc': "success_count w' =
               success_count w1 + int (length (filter (\<lambda>c. call_status c = ''completed'') cs))"
    and sr': "success_rate w' = real_of_int (success_count w') / real_of_int (total_count w')"
    by blast
  have "record_executions e wid (c # cs) s = Inr s'" using run run' by simp
  moreover have "total_count w' = total_count w + int (length (c # cs))" using tc tc' by simp
  moreover have "success_count w' =
      success_count w + int (length (filter (\<lambda>c. call_status c = ''completed'') (c # cs)))"
    using sc sc' by simp
  ultimately show ?case using w' sr' by blast
qed

text \<open>
  Claim C1. A workflow created by \<^verbatim>\<open>record_workflow\<close> has \<open>total_count = 1\<close>,
  \<open>success_count = 1\<close> and \<open>success_rate = 1\<close>. After \<open>N\<close> calls of \<^verbatim>\<open>record_execution\<close>
  with a terminal status, run one after the other, \<open>k\<close> of them with status
  \<^verbatim>\<open>completed\<close>, the row has \<open>total_count = N + 1\<close>, \<open>success_count = k + 1\<close> and
  \<open>success_rate = success_count / total_count\<close>.
\<close>

theorem counters_after_executions:
  assumes "record_workflow e now uid cat intent prompt summ stps params templ rat s = (wid, s0)"
      and "\<forall>c\<in>set calls. call_status c = ''completed'' \<or> call_status c = ''failed''"
  shows "\<exists>w0 s' w'.
           fetch_workflow wid s0 = Some w0
           \<and> total_count w0 = 1 \<and> success_count w0 = 1 \<and> success_rate w0 = 1
           \<and> record_executions e wid calls s0 = Inr s'
           \<and> fetch_workflow wid s' = Some w'
           \<and> total_count w' = int (length calls) + 1
           \<and> success_count w' =
               int (length (filter (\<lambda>c. call_status c = ''completed'') calls)) + 1
           \<and> success_rate w' = real_of_int (success_count w') / real_of_int (total_count w')"
proof -
  let ?w0 = "new_workflow_row now wid uid cat intent (index_keywords prompt) prompt summ stps
               params templ rat"
  have w0: "fetch_workflow wid s0 = Some ?w0"
    using assms(1) by (rule fetch_workflow_record_workflow)
  have c0: "total_count ?w0 = 1" "success_count ?w0 = 1" "success_rate ?w0 = 1"
    by (simp_all add: new_workflow_row_def)
  then have "success_rate ?w0 = real_of_int (success_count ?w0) / real_of_int (total_count ?w0)"
    by simp
  from record_executions_counts [OF assms(2) w0 this, of e]
  obtain s' w' where "record_executions e wid calls s0 = Inr s'"
      "fetch_workflow wid s' = Some w'"
      "total_count w' = total_count ?w0 + int (length calls)"
      "success_count w' =
         success_count ?w0 + int (length (filter (\<lambda>c. call_status c = ''completed'') calls))"
      "success_rate w' = real_of_int (success_count w') / real_of_int (total_count w')"
    by blast
  with w0 c0 show ?thesis by simp
qed

text \<open>The scenario of three executions: success, failure, success.\<close>

theorem counters_after_executions_witness:
  "\<exists>w0 s' w'.
     fetch_workflow 1 (snd (record_workflow env0 5 7 ''linkedin'' ''connect''
        ''connect with a product manager'' ''done'' [] None False 5 state0)) = Some w0
     \<and> total_count w0 = 1 \<and> success_count w0 = 1 \<and> success_rate w0 = 1
     \<and> record_executions env0 1 calls3 (snd (record_workflow env0 5 7 ''linkedin'' ''connect''
        ''connect with a product manager'' ''done'' [] None False 5 state0)) = Inr s'
     \<and> fetch_workflow 1 s' = Some w'
     \<and> total_count w' = 4 \<and> success_count w' = 3 \<and> success_rate w' = 3 / 4"
proof -
  let ?rw = "record_workflow env0 5 7 ''linkedin'' ''connect''
        ''connect with a product manager'' ''done'' [] None False 5 state0"
  have "fst ?rw = 1"
    by (simp add: record_workflow_def Let_def next_rowid_def state0_def)
  then have rw: "?rw = (1, snd ?rw)"
    by (simp add: prod_eq_iff)
  have terminal: "\<forall>c\<in>set calls3. call_status c = ''completed'' \<or> call_status c = ''failed''"
    by (simp add: calls3_def)
  from counters_after_executions [OF rw terminal]
  obtain w0 s' w' where
      "fetch_workflow 1 (snd ?rw) = Some w0"
      "total_count w0 = 1" "success_count w0 = 1" "success_rate w0 = 1"
      "record_executions env0 1 calls3 (snd ?rw) = Inr s'"
      "fetch_workflow 1 s' = Some w'"
      "total_count w' = int (length calls3) + 1"
      "success_count w' =
         int (length (filter (\<lambda>c. call_status c = ''completed'') calls3)) + 1"
      "success_rate w' = real_of_int (success_count w') / real_of_int (total_count w')"
    by blast
  then show ?thesis by (simp add: calls3_def)
qed

subsection \<open>What an execution changes in the workflow row\<close>

lemma fetch_workflow_Some_id: "fetch_workflow wid s = Some w \<Longrightarrow> wf_id w = wid"
  by (auto simp: fetch_workflow_def find_Some_iff)

lemma fetch_workflow_map:
  assumes "\<And>x. wf_id (f x) = wf_id x"
  shows "fetch_workflow wid (s\<lparr>workflows := map f (workflows s)\<rparr>)
           = map_option f (fetch_workflow wid s)"
  unfolding fetch_workflow_def using assms by (simp add: find_map_same_key)

lemma filter_map_others:
  assumes "\<And>x. \<not> P x \<Longrightarrow> f x = x" and "\<And>x. P (f x) = P x"
  shows "filter (\<lambda>x. \<not> P x) (map f xs) = filter (\<lambda>x. \<not> P x) xs"
  using assms by (induction xs) auto

lemma write_success_no_steps:
  assumes "\<not> truthy new_steps"
  shows "write_success now wid ok new_steps w s =
     s\<lparr>workflows :=
         map (\<lambda>x. if wf_id x = wid
                   then x\<lparr>success_count := success_count w + (if ok then 1 else 0),
                          total_count := total_count w + 1,
                          success_rate := real_of_int (success_count w + (if ok then 1 else 0))
                                            / real_of_int (total_count w + 1),
                          updated_at := now\<rparr>
                   else x) (workflows s),
        logged := logged s @ [Debug_updated_workflow wid
                     (real_of_int (success_count w + (if ok then 1 else 0))
                        / real_of_int (total_count w + 1))]\<rparr>"
  using assms by (simp add: write_success_def Let_def)

text \<open>
  With a terminal status and no step results, \<^verbatim>\<open>record_execution\<close> leaves \<open>steps\<close> as it
  was: the row is the old row with new \<open>success_count\<close>, \<open>total_count\<close>, \<open>success_rate\<close>
  and \<open>updated_at\<close>; rows of other workflows and the embeddings are as before.
\<close>

lemma record_execution_keeps_steps:
  assumes w: "fetch_workflow wid s = Some w"
      and st: "st = ''completed'' \<or> st = ''failed''"
      and no_steps: "\<not> truthy results"
  shows "\<exists>eid s' w'. record_execution e now wid uid st results err s = Inr (eid, s')
           \<and> fetch_workflow wid s' = Some w'
           \<and> steps w' = steps w
           \<and> w' = w\<lparr>success_count := success_count w + (if st = ''completed'' then 1 else 0),
                     total_count := total_count w + 1,
                     success_rate :=
                       real_of_int (success_count w + (if st = ''completed'' then 1 else 0))
                         / real_of_int (total_count w + 1),
                     updated_at := now\<rparr>
           \<and> filter (\<lambda>x. wf_id x \<noteq> wid) (workflows s') = filter (\<lambda>x. wf_id x \<noteq> wid) (workflows s)
           \<and> embeddings s' = embeddings s"
proof -
  let ?eid = "next_rowid (map ex_id (workflow_executions s))"
  let ?s1 = "s\<lparr>workflow_executions := workflow_executions s @
                     [\<lparr>ex_id = ?eid, workflow_id = wid, ex_user_id = uid, status = st,
                       step_results = (if truthy results then results else None),
                       error_message = err, started_at = now, completed_at = None\<rparr>]\<rparr>"
  let ?ok = "st = ''completed''"
  let ?f = "\<lambda>x. if wf_id x = wid
                   then x\<lparr>success_count := success_count w + (if ?ok then 1 else 0),
                          total_count := total_count w + 1,
                          success_rate := real_of_int (success_count w + (if ?ok then 1 else 0))
                                            / real_of_int (total_count w + 1),
                          updated_at := now\<rparr>
                   else x"
  let ?s2 = "update_workflow_success now wid ?ok results ?s1"
  have w1: "fetch_workflow wid ?s1 = Some w" using w by simp
  then have s2: "?s2 = write_success now wid ?ok results w ?s1"
    by (simp add: update_workflow_success_def)
  have ws2: "workflows ?s2 = map ?f (workflows s)"
    unfolding s2 write_success_no_steps [OF no_steps] by simp
  have emb2: "embeddings ?s2 = embeddings s"
    unfolding s2 write_success_no_steps [OF no_steps] by simp
  have key: "\<And>x. (wf_id (?f x) = wid) = (wf_id x = wid)" by simp
  have "fetch_workflow wid ?s2 = map_option ?f (find (\<lambda>x. wf_id x = wid) (workflows s))"
    unfolding fetch_workflow_def ws2 by (rule find_map_same_key) (rule key)
  then have f2: "fetch_workflow wid ?s2 = Some (?f w)"
    using w by (simp add: fetch_workflow_def)
  have fw: "?f w = w\<lparr>success_count := success_count w + (if ?ok then 1 else 0),
                     total_count := total_count w + 1,
                     success_rate := real_of_int (success_count w + (if ?ok then 1 else 0))
                                       / real_of_int (total_count w + 1),
                     updated_at := now\<rparr>"
    using fetch_workflow_Some_id [OF w] by simp
  have others: "filter (\<lambda>x. wf_id x \<noteq> wid) (map ?f (workflows s))
                  = filter (\<lambda>x. wf_id x \<noteq> wid) (workflows s)"
    by (rule filter_map_others) simp_all
  obtain eid s' where run: "record_execution e now wid uid st results err s = Inr (eid, s')"
      and ws': "workflows s' = workflows ?s2" and emb': "embeddings s' = embeddings ?s2"
    using w st by (cases ?ok) (simp_all add: record_execution_def Let_def)
  have "fetch_workflow wid s' = Some (?f w)"
    using f2 ws' by (simp add: fetch_workflow_def)
  with run fw ws' ws2 others emb' emb2 show ?thesis by simp
qed


lemma record_execution_keeps_steps_example:
  "\<exists>eid s' w'. record_execution env0 6 1 7 ''failed'' None (Some ''timeout'') state1
                   = Inr (eid, s')
     \<and> fetch_workflow 1 s' = Some w'
     \<and> steps w' = [JObj [(''action'', JStr ''open'')]]
     \<and> total_count w' = 2 \<and> success_count w' = 1 \<and> success_rate w' = 1 / 2
     \<and> updated_at w' = 6"
proof -
  have w: "fetch_workflow 1 state1 = Some workflow1"
    by (simp add: fetch_workflow_def state1_def workflow1_def)
  have st: "''failed'' = ''completed'' \<or> ''failed'' = ''failed''"
    by simp
  have none: "\<not> truthy (None :: json list option)"
    by (simp add: truthy_def)
  from record_execution_keeps_steps [OF w st none, of env0 6 7 "Some ''timeout''"]
  obtain eid s' w' where
      "record_execution env0 6 1 7 ''failed'' None (Some ''timeout'') state1 = Inr (eid, s')"
      "fetch_workflow 1 s' = Some w'"
      "w' = workflow1\<lparr>success_count := success_count workflow1
                          + (if ''failed'' = ''completed'' then 1 else 0),
                      total_count := total_count workflow1 + 1,
                      success_rate :=
                        real_of_int (success_count workflow1
                          + (if ''failed'' = ''completed'' then 1 else 0))
                          / real_of_int (total_count workflow1 + 1),
                      updated_at := 6\<rparr>"
    by blast
  then show ?thesis by (simp add: workflow1_def)
qed

text \<open>
  Claim C8 asks that a terminal \<^verbatim>\<open>record_execution\<close> that names no replacement for the
  steps leave the steps unchanged. The call has no parameter for replacement steps; it
  passes \<^verbatim>\<open>step_results\<close>, documented as the results of each step, to
  \<^verbatim>\<open>update_workflow_success\<close> in the place of \<^verbatim>\<open>new_steps\<close>, documented as the updated
  steps. A failed execution that reports its step results overwrites the steps of the
  workflow with those results.
\<close>

theorem record_execution_overwrites_steps:
  "fetch_workflow 1 state1 = Some workflow1
   \<and> steps workflow1 = [JObj [(''action'', JStr ''open'')]]
   \<and> map_sum id (\<lambda>r. map steps (workflows (snd r)))
        (record_execution env0 6 1 7 ''failed'' (Some [JObj [(''ok'', JBool False)]]) None
           state1)
       = Inr [[JObj [(''ok'', JBool False)]]]"
  by (simp add: record_execution_def update_workflow_success_def write_success_def
        fetch_workflow_def state1_def workflow1_def env0_def truthy_def Let_def)

subsection \<open>A workflow id that names no row\<close>

text \<open>
  Claim C7, as the code has it. For a workflow id with no row,
  \<^verbatim>\<open>update_workflow_success\<close> logs a warning, changes no table and raises nothing.
  \<^verbatim>\<open>record_execution\<close> inserts the execution row before anything looks for the workflow:
  where the store enforces the foreign key the insert fails and the error reaches the
  caller; where it does not, the execution row is appended, the workflows and the
  embeddings are unchanged, and a terminal status logs the missing workflow.
\<close>

theorem missing_workflow_behaviour:
  assumes missing: "fetch_workflow wid s = None"
  shows "update_workflow_success now wid ok new_steps s
           = s\<lparr>logged := logged s @ [Warning_workflow_not_found wid]\<rparr>
       \<and> (if foreign_keys e
          then record_execution e now wid uid st results err s = Inl IntegrityError
          else (\<exists>x s'. record_execution e now wid uid st results err s
                          = Inr (next_rowid (map ex_id (workflow_executions s)), s')
                  \<and> workflows s' = workflows s
                  \<and> embeddings s' = embeddings s
                  \<and> workflow_executions s' = workflow_executions s @ [x]
                  \<and> workflow_id x = wid \<and> status x = st
                  \<and> logged s' = logged s @
                       (if st = ''completed'' \<or> st = ''failed''
                        then [Warning_workflow_not_found wid] else [])))"
proof -
  let ?eid = "next_rowid (map ex_id (workflow_executions s))"
  let ?x = "\<lparr>ex_id = ?eid, workflow_id = wid, ex_user_id = uid, status = st,
             step_results = (if truthy results then results else None),
             error_message = err, started_at = now, completed_at = None\<rparr>"
  let ?s1 = "s\<lparr>workflow_executions := workflow_executions s @ [?x]\<rparr>"
  have upd: "\<And>ok new_steps. update_workflow_success now wid ok new_steps s
               = s\<lparr>logged := logged s @ [Warning_workflow_not_found wid]\<rparr>"
    using missing by (simp add: update_workflow_success_def)
  have upd1: "\<And>ok. update_workflow_success now wid ok results ?s1
               = ?s1\<lparr>logged := logged s @ [Warning_workflow_not_found wid]\<rparr>"
    using missing by (simp add: update_workflow_success_def)
  have fresh: "\<forall>y\<in>set (workflow_executions s). ex_id y \<noteq> ?eid"
    using next_rowid_fresh [of "map ex_id (workflow_executions s)"]
    by (metis image_eqI list.set_map)
  then have keep: "map (\<lambda>y. if ex_id y = ?eid then y\<lparr>completed_at := Some now\<rparr> else y)
                 (workflow_executions s) = workflow_executions s"
    by (simp add: map_idI)
  show ?thesis
  proof (cases "foreign_keys e")
    case True
    then show ?thesis using missing upd by (simp add: record_execution_def)
  next
    case False
    consider (completed) "st = ''completed''" | (failed) "st = ''failed''"
      | (other) "st \<noteq> ''completed''" "st \<noteq> ''failed''" by blast
    then have "\<exists>x s'. record_execution e now wid uid st results err s = Inr (?eid, s')
                  \<and> workflows s' = workflows s
                  \<and> embeddings s' = embeddings s
                  \<and> workflow_executions s' = workflow_executions s @ [x]
                  \<and> workflow_id x = wid \<and> status x = st
                  \<and> logged s' = logged s @
                       (if st = ''completed'' \<or> st = ''failed''
                        then [Warning_workflow_not_found wid] else [])"
    proof cases
      case completed
      have "record_execution e now wid uid st results err s =
              Inr (?eid, ?s1\<lparr>logged := logged s @ [Warning_workflow_not_found wid],
                     workflow_executions := workflow_executions s @ [?x\<lparr>completed_at := Some now\<rparr>]\<rparr>)"
        using False completed upd1 keep by (simp add: record_execution_def Let_def)
      then show ?thesis using completed by simp
    next
      case failed
      have "record_execution e now wid uid st results err s =
              Inr (?eid, ?s1\<lparr>logged := logged s @ [Warning_workflow_not_found wid]\<rparr>)"
        using False failed upd1 by (simp add: record_execution_def Let_def)
      then show ?thesis using failed by simp
    next
      case other
      have "record_execution e now wid uid st results err s = Inr (?eid, ?s1)"
        using False other by (simp add: record_execution_def Let_def)
      then show ?thesis using other by simp
    qed
    with False upd show ?thesis by simp
  qed
qed


theorem missing_workflow_behaviour_witness:
  "fetch_workflow 1 state0 = None
   \<and> update_workflow_success 6 1 True None state0
        = state0\<lparr>logged := [Warning_workflow_not_found 1]\<rparr>
   \<and> record_execution env0 6 1 7 ''completed'' None None state0 = Inl IntegrityError"
proof -
  have missing: "fetch_workflow 1 state0 = None"
    by (simp add: fetch_workflow_def state0_def)
  from missing_workflow_behaviour [OF missing, where now = 6 and ok = True
      and new_steps = None and e = env0 and uid = 7 and st = "''completed''"
      and results = None and err = None]
  show ?thesis using missing by (simp add: env0_def state0_def)
qed

text \<open>
  The claim as stated fails for \<^verbatim>\<open>record_execution\<close>: with the foreign key enforced the
  call raises, and without it the call inserts an execution row.
\<close>

theorem record_execution_missing_workflow_counterexample:
  "fetch_workflow 1 state0 = None
   \<and> record_execution env0 6 1 7 ''completed'' None None state0 = Inl IntegrityError
   \<and> record_execution (env0\<lparr>foreign_keys := False\<rparr>) 6 1 7 ''completed'' None None state0
       = Inr (1, state0\<lparr>workflow_executions :=
                          [\<lparr>ex_id = 1, workflow_id = 1, ex_user_id = 7, status = ''completed'',
                            step_results = None, error_message = None, started_at = 6,
                            completed_at = Some 6\<rparr>],
                        logged := [Warning_workflow_not_found 1]\<rparr>)"
  by (simp add: record_execution_def update_workflow_success_def fetch_workflow_def
        state0_def env0_def next_rowid_def truthy_def Let_def)

subsection \<open>Two completions of one workflow\<close>

lemma step_task_twice:
  "snd (step_task c (fst (step_task c Ready s)) (snd (step_task c Ready s)))
     = update_workflow_success (comp_now c) (comp_workflow_id c) (comp_was_successful c)
         (comp_new_steps c) s"
  by (cases "fetch_workflow (comp_workflow_id c) s") (simp_all add: update_workflow_success_def)

lemma run_two_serial:
  "run_two c1 c2 [False, False, True, True] (Ready, Ready, s) =
     (Finished, Finished,
      update_workflow_success (comp_now c2) (comp_workflow_id c2) (comp_was_successful c2)
        (comp_new_steps c2)
        (update_workflow_success (comp_now c1) (comp_workflow_id c1) (comp_was_successful c1)
           (comp_new_steps c1) s))"
proof -
  let ?u1 = "update_workflow_success (comp_now c1) (comp_workflow_id c1) (comp_was_successful c1)
           (comp_new_steps c1) s"
  have a: "run_two c1 c2 [False, False] (Ready, Ready, s) = (Finished, Ready, ?u1)"
    by (cases "fetch_workflow (comp_workflow_id c1) s")
       (simp_all add: update_workflow_success_def)
  have b: "run_two c1 c2 [True, True] (Finished, Ready, ?u1) =
     (Finished, Finished,
      update_workflow_success (comp_now c2) (comp_workflow_id c2) (comp_was_successful c2)
        (comp_new_steps c2) ?u1)"
    by (cases "fetch_workflow (comp_workflow_id c2) ?u1")
       (simp_all add: update_workflow_success_def)
  have "run_two c1 c2 [False, False, True, True] (Ready, Ready, s)
      = run_two c1 c2 [True, True] (run_two c1 c2 [False, False] (Ready, Ready, s))"
    by (cases "fetch_workflow (comp_workflow_id c1) s") simp_all
  then show ?thesis by (simp only: a b)
qed

lemma fetch_workflow_logged_update [simp]:
  "fetch_workflow wid (s\<lparr>logged := x\<rparr>) = fetch_workflow wid s"
  by (simp add: fetch_workflow_def)

text \<open>
  Claim C2, as the code has it. \<^verbatim>\<open>update_workflow_success\<close> is a read of the row and a
  separate write of the counters computed from the row read. When the two steps of one
  completion run with no step of the other between them, each completion adds one to
  \<open>total_count\<close> and its outcome to \<open>success_count\<close>.
\<close>

theorem update_success_read_then_write:
  assumes w: "fetch_workflow wid s = Some w"
      and c1: "comp_workflow_id c1 = wid" and c2: "comp_workflow_id c2 = wid"
  shows "step_task c1 Ready s = (Fetched (Some w), s)
       \<and> step_task c1 (Fetched (Some w)) s =
           (Finished, update_workflow_success (comp_now c1) wid (comp_was_successful c1)
                        (comp_new_steps c1) s)
       \<and> (\<exists>s' w'. run_two c1 c2 [False, False, True, True] (Ready, Ready, s)
                     = (Finished, Finished, s')
             \<and> fetch_workflow wid s' = Some w'
             \<and> total_count w' = total_count w + 2
             \<and> success_count w' = success_count w
                  + (if comp_was_successful c1 then 1 else 0)
                  + (if comp_was_successful c2 then 1 else 0))"
proof -
  let ?u1 = "update_workflow_success (comp_now c1) wid (comp_was_successful c1)
               (comp_new_steps c1) s"
  let ?u2 = "update_workflow_success (comp_now c2) wid (comp_was_successful c2)
               (comp_new_steps c2) ?u1"
  have u1: "?u1 = write_success (comp_now c1) wid (comp_was_successful c1) (comp_new_steps c1) w s"
    using w by (simp add: update_workflow_success_def)
  from fetch_workflow_write_success [OF w, of "comp_now c1" "comp_was_successful c1"
      "comp_new_steps c1" w]
  obtain w1 where w1: "fetch_workflow wid ?u1 = Some w1"
      "total_count w1 = total_count w + 1"
      "success_count w1 = success_count w + (if comp_was_successful c1 then 1 else 0)"
    unfolding u1 by blast
  have u2: "?u2 = write_success (comp_now c2) wid (comp_was_successful c2) (comp_new_steps c2)
                    w1 ?u1"
    using w1(1) by (simp add: update_workflow_success_def)
  from fetch_workflow_write_success [OF w1(1), of "comp_now c2" "comp_was_successful c2"
      "comp_new_steps c2" w1]
  obtain w2 where w2: "fetch_workflow wid ?u2 = Some w2"
      "total_count w2 = total_count w1 + 1"
      "success_count w2 = success_count w1 + (if comp_was_successful c2 then 1 else 0)"
    unfolding u2 by blast
  have read: "step_task c1 Ready s = (Fetched (Some w), s)"
    using w c1 by simp
  have "write": "step_task c1 (Fetched (Some w)) s = (Finished, ?u1)"
    using c1 u1 by simp
  have serial: "run_two c1 c2 [False, False, True, True] (Ready, Ready, s)
                  = (Finished, Finished, ?u2)"
    using run_two_serial [of c1 c2 s] c1 c2 by simp
  have "total_count w2 = total_count w + 2"
    using w1 w2 by simp
  moreover have "success_count w2 = success_count w
                  + (if comp_was_successful c1 then 1 else 0)
                  + (if comp_was_successful c2 then 1 else 0)"
    using w1 w2 by simp
  ultimately show ?thesis using read "write" serial w2(1) by blast
qed

theorem update_success_read_then_write_witness:
  "step_task completion1 Ready state1 = (Fetched (Some workflow1), state1)
   \<and> (\<exists>s' w'. run_two completion1 completion1 [False, False, True, True] (Ready, Ready, state1)
                 = (Finished, Finished, s')
         \<and> fetch_workflow 1 s' = Some w'
         \<and> total_count w' = 3
         \<and> success_count w' = 3)"
proof -
  have w: "fetch_workflow 1 state1 = Some workflow1"
    by (simp add: fetch_workflow_def state1_def workflow1_def)
  have c: "comp_workflow_id completion1 = 1"
    by (simp add: completion1_def)
  from update_success_read_then_write [OF w c c]
  obtain s' w' where
      read: "step_task completion1 Ready state1 = (Fetched (Some workflow1), state1)"
    and run: "run_two completion1 completion1 [False, False, True, True] (Ready, Ready, state1)
                = (Finished, Finished, s')"
    and w': "fetch_workflow 1 s' = Some w'"
    and tc: "total_count w' = total_count workflow1 + 2"
    and sc: "success_count w' = success_count workflow1
               + (if comp_was_successful completion1 then 1 else 0)
               + (if comp_was_successful completion1 then 1 else 0)"
    by blast
  have "total_count w' = 3"
    using tc by (simp add: workflow1_def)
  moreover have "success_count w' = 3"
    using sc by (simp add: workflow1_def completion1_def)
  ultimately show ?thesis using read run w' by blast
qed

text \<open>
  When both completions read before either writes, the second write overwrites the
  first: two successful completions leave \<open>total_count = 2\<close> and \<open>success_count = 2\<close>,
  where three was due.
\<close>

theorem concurrent_completions_counterexample:
  "map total_count (workflows state1) = [1]
   \<and> map success_count (workflows state1) = [1]
   \<and> fst (run_two completion1 completion1 [False, True, False, True] (Ready, Ready, state1))
        = Finished
   \<and> fst (snd (run_two completion1 completion1 [False, True, False, True]
                 (Ready, Ready, state1))) = Finished
   \<and> map total_count (workflows (snd (snd (run_two completion1 completion1
        [False, True, False, True] (Ready, Ready, state1))))) = [2]
   \<and> map success_count (workflows (snd (snd (run_two completion1 completion1
        [False, True, False, True] (Ready, Ready, state1))))) = [2]"
  by (simp add: state1_def completion1_def workflow1_def fetch_workflow_def write_success_def
        truthy_def Let_def)

subsection \<open>Storing an embedding twice\<close>

lemma same_key_iff: "same_key cid tname r = ((content_id r, table_name r) = (cid, tname))"
  by (auto simp: same_key_def)

lemma filter_distinct_key:
  "distinct (map k rows) \<Longrightarrow> x \<in> k ` set rows \<Longrightarrow> \<exists>r. filter (\<lambda>r. k r = x) rows = [r]"
proof (induction rows)
  case Nil
  then show ?case by simp
next
  case (Cons r rs)
  show ?case
  proof (cases "k r = x")
    case True
    with Cons.prems(1) have "x \<notin> k ` set rs" by simp
    then have "\<forall>y\<in>set rs. k y \<noteq> x" by blast
    then have "filter (\<lambda>r. k r = x) rs = []" by (simp add: filter_empty_conv)
    with True show ?thesis by simp
  next
    case False
    with Cons show ?thesis by auto
  qed
qed

lemma upsert_embedding_row:
  assumes "unique_keys rows"
  shows "\<exists>r. filter (same_key cid tname) (upsert_embedding now cid tname txt vec meta rows) = [r]
           \<and> content r = txt \<and> embedding r = vec \<and> metadata r = meta \<and> emb_updated_at r = now"
proof (cases "list_ex (same_key cid tname) rows")
  case True
  let ?f = "\<lambda>r. if same_key cid tname r
                 then r\<lparr>content := txt, embedding := vec, metadata := meta, emb_updated_at := now\<rparr>
                 else r"
  have key: "\<And>r. same_key cid tname (?f r) = same_key cid tname r"
    by (simp add: same_key_def)
  from True have "(cid, tname) \<in> (\<lambda>r. (content_id r, table_name r)) ` set rows"
    by (auto simp: list_ex_iff same_key_def)
  with assms obtain r0 where r0: "filter (\<lambda>r. (content_id r, table_name r) = (cid, tname)) rows = [r0]"
    unfolding unique_keys_def by (blast dest: filter_distinct_key)
  then have f0: "filter (same_key cid tname) rows = [r0]"
    by (simp add: same_key_iff [abs_def])
  then have "r0 \<in> set (filter (same_key cid tname) rows)" by simp
  then have k0: "same_key cid tname r0" by simp
  have "filter (same_key cid tname) (map ?f rows) = map ?f (filter (same_key cid tname) rows)"
    by (induction rows) (simp_all add: same_key_def)
  then have "filter (same_key cid tname) (upsert_embedding now cid tname txt vec meta rows) = [?f r0]"
    using True f0 by (simp add: upsert_embedding_def)
  then show ?thesis using k0 by simp
next
  case False
  then have "filter (same_key cid tname) rows = []"
    by (simp add: list_ex_iff filter_empty_conv)
  with False show ?thesis by (simp add: upsert_embedding_def same_key_def)
qed

lemma unique_keys_upsert:
  assumes "unique_keys rows"
  shows "unique_keys (upsert_embedding now cid tname txt vec meta rows)"
proof (cases "list_ex (same_key cid tname) rows")
  case True
  have "map (\<lambda>r. (content_id r, table_name r))
          (map (\<lambda>r. if same_key cid tname r
                 then r\<lparr>content := txt, embedding := vec, metadata := meta, emb_updated_at := now\<rparr>
                 else r) rows) = map (\<lambda>r. (content_id r, table_name r)) rows"
    by (induction rows) simp_all
  with True assms show ?thesis by (simp add: upsert_embedding_def unique_keys_def del: map_map)
next
  case False
  then have "(cid, tname) \<notin> (\<lambda>r. (content_id r, table_name r)) ` set rows"
    by (auto simp: list_ex_iff same_key_def)
  with False assms show ?thesis by (simp add: upsert_embedding_def unique_keys_def)
qed

lemma other_keys_upsert:
  "filter (\<lambda>r. \<not> same_key cid tname r) (upsert_embedding now cid tname txt vec meta rows)
     = filter (\<lambda>r. \<not> same_key cid tname r) rows"
proof (cases "list_ex (same_key cid tname) rows")
  case True
  have "filter (\<lambda>r. \<not> same_key cid tname r)
          (map (\<lambda>r. if same_key cid tname r
                 then r\<lparr>content := txt, embedding := vec, metadata := meta, emb_updated_at := now\<rparr>
                 else r) rows) = filter (\<lambda>r. \<not> same_key cid tname r) rows"
    by (rule filter_map_others) (auto simp: same_key_def)
  with True show ?thesis by (simp add: upsert_embedding_def)
next
  case False
  then show ?thesis by (simp add: upsert_embedding_def same_key_def)
qed

text \<open>
  Claim C3. After two calls of \<^verbatim>\<open>store_embedding\<close> for one content id and table name
  the embeddings table holds exactly one row for the pair, with the content, the vector
  (the one given, or the embedding of the content when none is given) and the metadata
  of the second call; the key stays unique and rows of other keys are untouched.
\<close>

theorem store_embedding_twice:
  assumes "unique_keys (embeddings s)"
  shows "\<exists>r. filter (same_key cid tname)
                (embeddings (store_embedding e now2 cid tname text2 emb2 meta2
                               (store_embedding e now1 cid tname text1 emb1 meta1 s))) = [r]
           \<and> content r = text2
           \<and> embedding r = (case emb2 of None \<Rightarrow> embed_text e text2 | Some v \<Rightarrow> v)
           \<and> metadata r = (if truthy meta2 then meta2 else None)
           \<and> emb_updated_at r = now2
           \<and> unique_keys (embeddings (store_embedding e now2 cid tname text2 emb2 meta2
                               (store_embedding e now1 cid tname text1 emb1 meta1 s)))
           \<and> filter (\<lambda>r. \<not> same_key cid tname r)
                (embeddings (store_embedding e now2 cid tname text2 emb2 meta2
                               (store_embedding e now1 cid tname text1 emb1 meta1 s)))
               = filter (\<lambda>r. \<not> same_key cid tname r) (embeddings s)"
proof -
  let ?v1 = "case emb1 of None \<Rightarrow> embed_text e text1 | Some v \<Rightarrow> v"
  let ?v2 = "case emb2 of None \<Rightarrow> embed_text e text2 | Some v \<Rightarrow> v"
  let ?m1 = "if truthy meta1 then meta1 else None"
  let ?m2 = "if truthy meta2 then meta2 else None"
  let ?rows1 = "upsert_embedding now1 cid tname text1 ?v1 ?m1 (embeddings s)"
  let ?rows2 = "upsert_embedding now2 cid tname text2 ?v2 ?m2 ?rows1"
  have rows: "embeddings (store_embedding e now2 cid tname text2 emb2 meta2
                 (store_embedding e now1 cid tname text1 emb1 meta1 s)) = ?rows2"
    by (simp add: store_embedding_def Let_def)
  have u1: "unique_keys ?rows1" using assms by (rule unique_keys_upsert)
  then have u2: "unique_keys ?rows2" by (rule unique_keys_upsert)
  from upsert_embedding_row [OF u1, of cid tname now2 text2 ?v2 ?m2]
  obtain r where "filter (same_key cid tname) ?rows2 = [r]" "content r = text2"
      "embedding r = ?v2" "metadata r = ?m2" "emb_updated_at r = now2"
    by blast
  moreover have "filter (\<lambda>r. \<not> same_key cid tname r) ?rows2
                   = filter (\<lambda>r. \<not> same_key cid tname r) (embeddings s)"
    by (simp only: other_keys_upsert)
  ultimately show ?thesis unfolding rows using u2 by blast
qed

theorem store_embedding_twice_witness:
  "unique_keys (embeddings state0)
   \<and> embeddings (store_embedding env0 7 1 ''workflows'' ''second text'' (Some [0, 1])
                    (Some [(''category'', JStr ''youtube'')])
                    (store_embedding env0 6 1 ''workflows'' ''first text'' None
                       (Some [(''category'', JStr ''linkedin'')]) state0))
       = [\<lparr>content_id = 1, table_name = ''workflows'', content = ''second text'',
           embedding = [0, 1], metadata = Some [(''category'', JStr ''youtube'')],
           emb_created_at = 6, emb_updated_at = 7\<rparr>]"
proof -
  have u: "unique_keys (embeddings state0)"
    by (simp add: unique_keys_def state0_def)
  from store_embedding_twice [OF u, of 1 "''workflows''" env0 7 "''second text''" "Some [0, 1]"
      "Some [(''category'', JStr ''youtube'')]" 6 "''first text''" None
      "Some [(''category'', JStr ''linkedin'')]"]
  have "\<exists>r. filter (same_key 1 ''workflows'')
                (embeddings (store_embedding env0 7 1 ''workflows'' ''second text'' (Some [0, 1])
                    (Some [(''category'', JStr ''youtube'')])
                    (store_embedding env0 6 1 ''workflows'' ''first text'' None
                       (Some [(''category'', JStr ''linkedin'')]) state0))) = [r]"
    by blast
  then show ?thesis using u
    by (simp add: store_embedding_def upsert_embedding_def same_key_def state0_def env0_def
          truthy_def Let_def)
qed

subsection \<open>Semantic search\<close>

lemma search_similar_raises:
  "search_similar e query tname limit threshold s = Inl OperationalError"
  by (simp add: search_similar_def fetchall_similarity_def)

text \<open>
  Claim C5 asks that \<^verbatim>\<open>search_similar\<close> return the records of the table name at or above
  the threshold, sorted by similarity, ties by content id, truncated to the limit. The
  code returns nothing: its statement does not parse in SQLite, and every call raises
  OperationalError. Here the table holds two embeddings under the table name searched.
\<close>

theorem search_similar_operational_error:
  "map content_id (embeddings state2) = [2, 1]
   \<and> map table_name (embeddings state2) = [''workflows'', ''workflows'']
   \<and> search_similar env0 ''q'' ''workflows'' 10 (1 / 2) state2 = Inl OperationalError"
proof -
  have "map content_id (embeddings state2) = [2, 1]"
    and "map table_name (embeddings state2) = [''workflows'', ''workflows'']"
    by (simp_all add: state2_def store_embedding_def upsert_embedding_def same_key_def
          state0_def truthy_def Let_def)
  moreover have "search_similar env0 ''q'' ''workflows'' 10 (1 / 2) state2 = Inl OperationalError"
    by (rule search_similar_raises)
  ultimately show ?thesis by (intro conjI)
qed

subsection \<open>The lexical phase of find\_similar\_workflows\<close>

lemma lexical_loop_raises: "lexical_loop kws (row # rows) acc = Inl TypeError"
  by simp

lemma lexical_loop_Inr: "lexical_loop kws rows acc = Inr res \<Longrightarrow> rows = [] \<and> res = acc"
  by (cases rows) simp_all

lemma find_similar_workflows_raises:
  "fetch_candidates uid cat limit s \<noteq> [] \<Longrightarrow>
   find_similar_workflows e uid prompt cat limit s = Inl TypeError"
  by (cases "fetch_candidates uid cat limit s")
     (simp_all add: find_similar_workflows_def lexical_phase_def)

text \<open>
  Claim C4 asks that a candidate be kept exactly when its stored keywords and the
  keywords of the prompt have a word in common. In the code the left operand of \<^verbatim>\<open>&\<close>
  is the list \<^verbatim>\<open>extract\<close> returned, so the first candidate raises TypeError and no
  candidate is kept or dropped. User 7 has one workflow, whose stored keywords share
  three words with the prompt; the call raises.
\<close>

theorem find_similar_workflows_type_error:
  "fetch_candidates 7 None 5 state1 = [workflow1]
   \<and> filter (\<lambda>k. k \<in> set (split_on (CHR '','') (wf_keywords workflow1)))
        (query_keywords ''connect with a product manager'')
       = [''connect'', ''product'', ''manager'']
   \<and> find_similar_workflows env0 7 ''connect with a product manager'' None 5 state1
       = Inl TypeError"
proof -
  have rows: "fetch_candidates 7 None 5 state1 = [workflow1]"
    by (simp add: fetch_candidates_def sql_limit_def state1_def workflow1_def truthy_def)
  have kws: "query_keywords ''connect with a product manager''
               = [''connect'', ''product'', ''manager'']"
    by code_simp
  have stored: "split_on (CHR '','') (wf_keywords workflow1)
               = [''connect'', ''product'', ''manager'']"
    by (simp add: workflow1_def)
  have "find_similar_workflows env0 7 ''connect with a product manager'' None 5 state1
          = Inl TypeError"
    by (rule find_similar_workflows_raises) (simp add: rows)
  then show ?thesis using rows by (simp add: kws stored)
qed

subsection \<open>The semantic phase of find\_similar\_workflows\<close>


lemma semantic_phase_Inr:
  "semantic_phase e prompt limit acc s = Inr found \<Longrightarrow> found = acc"
  by (simp add: semantic_phase_def search_similar_raises split: if_splits)

text \<open>What a call of \<^verbatim>\<open>find_similar_workflows\<close> that returns, returns: the empty list.\<close>

lemma find_similar_workflows_Inr:
  assumes "find_similar_workflows e uid prompt cat limit s = Inr ws"
  shows "ws = []"
proof -
  from assms obtain acc found where lex: "lexical_phase uid prompt cat limit s = Inr acc"
    and sem: "semantic_phase e prompt limit acc s = Inr found"
    and ws: "ws = py_slice_to limit found"
    by (auto simp: find_similar_workflows_def split: sum.splits)
  from lex have "acc = []"
    by (simp add: lexical_phase_def lexical_loop_Inr)
  moreover from sem have "found = acc" by (rule semantic_phase_Inr)
  ultimately show ?thesis using ws by (simp add: py_slice_to_def)
qed


subsection \<open>Keyword extraction\<close>

lemma first_occurrences_Nil: "first_occurrences [] = []"
  by (simp add: first_occurrences_def)

lemma remdups_snoc:
  "remdups (ys @ [x]) = filter (\<lambda>y. y \<noteq> x) (remdups ys) @ [x]"
  by (induction ys) auto

lemma first_occurrences_Cons:
  "first_occurrences (x # xs) = x # filter (\<lambda>y. y \<noteq> x) (first_occurrences xs)"
  by (simp add: first_occurrences_def remdups_snoc rev_filter)

lemma set_first_occurrences: "set (first_occurrences xs) = set xs"
  by (simp add: first_occurrences_def)

lemma distinct_first_occurrences: "distinct (first_occurrences xs)"
  by (simp add: first_occurrences_def)

lemma set_ranked: "set (ranked ws) = set ws"
  by (simp add: ranked_def set_first_occurrences)

lemma distinct_ranked: "distinct (ranked ws)"
  by (simp add: ranked_def distinct_first_occurrences)

lemma sorted_ranked: "sorted (map (\<lambda>w. - int (count_list ws w)) (ranked ws))"
  by (simp add: ranked_def)

lemma ranked_ties:
  "filter (\<lambda>w. count_list ws w = c) (ranked ws)
     = filter (\<lambda>w. count_list ws w = c) (first_occurrences ws)"
proof -
  have "filter (\<lambda>w. - int (count_list ws w) = - int c) (ranked ws)
          = filter (\<lambda>w. - int (count_list ws w) = - int c) (first_occurrences ws)"
    unfolding ranked_def by (rule sort_key_stable)
  then show ?thesis by simp
qed

lemma in_runs_subset: "w \<in> set (runs P cur cs) \<Longrightarrow> set w \<subseteq> set cur \<union> set cs"
proof (induction cs arbitrary: cur)
  case Nil
  then show ?case by (simp split: if_splits)
next
  case (Cons c cs)
  show ?case
  proof (cases "P c")
    case True
    with Cons.prems have "w \<in> set (runs P (cur @ [c]) cs)" by simp
    from Cons.IH [OF this] show ?thesis by auto
  next
    case False
    with Cons.prems have "w = cur \<or> w \<in> set (runs P [] cs)"
      by (auto split: if_splits)
    then show ?thesis
    proof
      assume "w = cur"
      then show ?thesis by auto
    next
      assume "w \<in> set (runs P [] cs)"
      from Cons.IH [OF this] show ?thesis by auto
    qed
  qed
qed

lemma in_runs_chars: "w \<in> set (runs P [] cs) \<Longrightarrow> set w \<subseteq> set cs"
  using in_runs_subset [of w P "[]" cs] by simp

lemma not_upper_lower_char: "\<not> is_upper (lower_char c)"
  by (simp add: is_upper_def lower_char_def)

lemma findall_words_lower:
  assumes "w \<in> set (findall_words (lower txt))"
  shows "2 \<le> length w \<and> list_all is_lower w"
proof -
  from assms have len: "2 \<le> length w" and letters: "list_all is_letter w"
    and run: "w \<in> set (runs is_word_char [] (lower txt))"
    by (simp_all add: findall_words_def)
  from run have "set w \<subseteq> set (lower txt)" by (rule in_runs_chars)
  then have "\<forall>c\<in>set w. \<not> is_upper c"
    by (auto simp: lower_def not_upper_lower_char)
  with letters have "list_all is_lower w"
    by (auto simp: list_all_iff is_letter_def)
  with len show ?thesis by simp
qed

lemma extract_keywords_member:
  assumes "w \<in> set (extract_keywords k txt)"
  shows "w \<in> set (findall_words (lower txt)) \<and> 3 \<le> length w \<and> w \<notin> set STOPWORDS
         \<and> list_all is_lower w"
proof -
  from assms have "w \<in> set (ranked (candidate_words txt))"
    by (auto simp: extract_keywords_def most_common_def dest: in_set_takeD)
  then have "w \<in> set (candidate_words txt)" by (simp add: set_ranked)
  then have a: "w \<in> set (findall_words (lower txt))" and b: "w \<notin> set STOPWORDS"
    and c: "length w > 2"
    by (simp_all add: candidate_words_def)
  from findall_words_lower [OF a] b c a show ?thesis by simp
qed

text \<open>
  Claim C9, as the code has it. The manager builds one extractor, with
  \<^verbatim>\<open>max_keywords=15\<close>, and both \<^verbatim>\<open>record_workflow\<close> and \<^verbatim>\<open>find_similar_workflows\<close> call
  it: the keywords stored with a workflow and the keywords of a query are both the
  first 15 of the ranking. The ranking is one algorithm: the words of the lower-cased
  text that are runs of at least three letters and no stop-words, each once, sorted by
  the number of occurrences, largest first, words of equal count in the order of their
  first occurrence.
\<close>

theorem keyword_extraction_call_sites:
  "keyword_extractor_max_keywords = 15
   \<and> query_keywords prompt = extract_keywords 15 prompt
   \<and> lexical_phase uid prompt cat limit s
       = lexical_loop (extract_keywords 15 prompt) (fetch_candidates uid cat limit s) []
   \<and> index_keywords prompt = join '','' (extract_keywords 15 prompt)
   \<and> (record_workflow e now uid category_name intent prompt summ stps params templ rat s
         = (wid, s0) \<longrightarrow>
       map_option wf_keywords (fetch_workflow wid s0)
         = Some (join '','' (extract_keywords 15 prompt)))
   \<and> extract_keywords k txt = take k (ranked (candidate_words txt))
   \<and> length (extract_keywords k txt) \<le> k
   \<and> distinct (extract_keywords k txt)
   \<and> (\<forall>w\<in>set (extract_keywords k txt).
         w \<in> set (findall_words (lower txt)) \<and> 3 \<le> length w \<and> w \<notin> set STOPWORDS
         \<and> list_all is_lower w)
   \<and> sorted (map (\<lambda>w. - int (count_list ws w)) (ranked ws))
   \<and> filter (\<lambda>w. count_list ws w = c) (ranked ws)
       = filter (\<lambda>w. count_list ws w = c) (first_occurrences ws)
   \<and> first_occurrences (x # xs) = x # filter (\<lambda>y. y \<noteq> x) (first_occurrences xs)"
proof (intro conjI impI ballI)
  show "keyword_extractor_max_keywords = 15"
    by (simp add: keyword_extractor_max_keywords_def)
  show "query_keywords prompt = extract_keywords 15 prompt"
    by (simp add: query_keywords_def keyword_extractor_max_keywords_def)
  show "lexical_phase uid prompt cat limit s
       = lexical_loop (extract_keywords 15 prompt) (fetch_candidates uid cat limit s) []"
    by (simp add: lexical_phase_def query_keywords_def keyword_extractor_max_keywords_def)
  show ik: "index_keywords prompt = join '','' (extract_keywords 15 prompt)"
    by (simp add: index_keywords_def extract_as_string_def keyword_extractor_max_keywords_def)
  show "map_option wf_keywords (fetch_workflow wid s0)
         = Some (join '','' (extract_keywords 15 prompt))"
    if "record_workflow e now uid category_name intent prompt summ stps params templ rat s
         = (wid, s0)"
    using fetch_workflow_record_workflow [OF that] ik by (simp add: new_workflow_row_def)
  show "extract_keywords k txt = take k (ranked (candidate_words txt))"
    by (simp add: extract_keywords_def most_common_def)
  show "length (extract_keywords k txt) \<le> k"
    by (simp add: extract_keywords_def most_common_def)
  show "distinct (extract_keywords k txt)"
    by (simp add: extract_keywords_def most_common_def distinct_ranked)
  show "sorted (map (\<lambda>w. - int (count_list ws w)) (ranked ws))"
    by (rule sorted_ranked)
  show "filter (\<lambda>w. count_list ws w = c) (ranked ws)
       = filter (\<lambda>w. count_list ws w = c) (first_occurrences ws)"
    by (rule ranked_ties)
  show "first_occurrences (x # xs) = x # filter (\<lambda>y. y \<noteq> x) (first_occurrences xs)"
    by (rule first_occurrences_Cons)
next
  fix w assume w: "w \<in> set (extract_keywords k txt)"
  from extract_keywords_member [OF w]
  show "w \<in> set (findall_words (lower txt))" "3 \<le> length w" "w \<notin> set STOPWORDS"
    "list_all is_lower w"
    by simp_all
qed

lemma extract_keywords_example:
  "extract_keywords 15 ''Connect with a product manager, connect PRODUCT now''
     = [''connect'', ''product'', ''manager'']"
  by code_simp

theorem keyword_extraction_call_sites_witness:
  "fst (record_workflow env0 5 7 ''linkedin'' ''connect''
          ''Connect with a product manager, connect PRODUCT now'' ''done'' [] None False 5
          state0) = 1
   \<and> map_option wf_keywords
        (fetch_workflow 1 (snd (record_workflow env0 5 7 ''linkedin'' ''connect''
          ''Connect with a product manager, connect PRODUCT now'' ''done'' [] None False 5
          state0))) = Some ''connect,product,manager''
   \<and> query_keywords ''Connect with a product manager, connect PRODUCT now''
        = [''connect'', ''product'', ''manager'']
   \<and> list_all is_lower ''connect''"
proof -
  define p where "p = ''Connect with a product manager, connect PRODUCT now''"
  define w where "w = ''connect''"
  define rw where
    "rw = record_workflow env0 5 7 ''linkedin'' ''connect'' p ''done'' [] None False 5 state0"
  have ex: "extract_keywords 15 p = [''connect'', ''product'', ''manager'']"
    unfolding p_def by (rule extract_keywords_example)
  have one: "fst rw = 1"
    by (simp add: rw_def record_workflow_def Let_def next_rowid_def state0_def)
  then have eq: "record_workflow env0 5 7 ''linkedin'' ''connect'' p ''done'' [] None False 5
                   state0 = (1, snd rw)"
    unfolding rw_def by (simp add: prod_eq_iff)
  have mem: "w \<in> set (extract_keywords 15 p)"
    by (simp add: ex w_def)
  from keyword_extraction_call_sites [where prompt = p and e = env0 and now = 5
      and uid = 7 and category_name = "''linkedin''" and intent = "''connect''"
      and summ = "''done''" and stps = "[]" and params = None and templ = False and rat = 5
      and s = state0 and wid = 1 and ?s0.0 = "snd rw" and k = 15 and ?txt = p
      and cat = None and limit = 5 and ws = "[]" and c = 0 and x = "0::nat" and xs = "[]"]
    eq mem
  have "map_option wf_keywords (fetch_workflow 1 (snd rw))
          = Some (join '','' (extract_keywords 15 p))"
    and "query_keywords p = extract_keywords 15 p"
    and "list_all is_lower w"
    by blast+
  then have "map_option wf_keywords (fetch_workflow 1 (snd rw)) = Some ''connect,product,manager''"
    and "query_keywords p = [''connect'', ''product'', ''manager'']"
    and "list_all is_lower w"
    by (simp_all add: ex)
  with one show ?thesis
    unfolding rw_def p_def w_def by (intro conjI)
qed

text \<open>
  A query of eleven different words keeps all eleven: the cut at query time is not at
  ten, the default of the extractor's constructor.
\<close>

theorem query_keywords_counterexample:
  "query_keywords ''alpha bravo charlie delta echo foxtrot golf hotel india juliet kilo''
     = [''alpha'', ''bravo'', ''charlie'', ''delta'', ''echo'', ''foxtrot'', ''golf'',
        ''hotel'', ''india'', ''juliet'', ''kilo'']
   \<and> length (query_keywords
         ''alpha bravo charlie delta echo foxtrot golf hotel india juliet kilo'') = 11
   \<and> \<not> length (query_keywords
         ''alpha bravo charlie delta echo foxtrot golf hotel india juliet kilo'')
        \<le> default_max_keywords"
  by code_simp

subsection \<open>Hybrid search with weights 1 and 0\<close>

lemma hybrid_search_raises:
  "hybrid_search e query tname limit semantic_weight keyword_weight s = Inl OperationalError"
  by (simp add: hybrid_search_def search_similar_raises)

text \<open>
  Claim C6 compares the order of the results of \<^verbatim>\<open>hybrid_search\<close>, weights 1 and 0, with
  the order of the results of \<^verbatim>\<open>search_similar\<close>. \<^verbatim>\<open>hybrid_search\<close> awaits
  \<^verbatim>\<open>search_similar\<close> first, and that call raises OperationalError: neither function
  returns a result whose order could be compared. Here the table holds two embeddings and
  the keyword search would find one record.
\<close>

theorem hybrid_search_operational_error:
  "search_keyword env2 ''q'' ''workflows'' 10
     = [\<lparr>kw_content_id = 9, kw_content = ''keyword hit'', relevance = 0\<rparr>]
   \<and> search_similar env2 ''q'' ''workflows'' 5 default_threshold state2 = Inl OperationalError
   \<and> hybrid_search env2 ''q'' ''workflows'' 5 1 0 state2 = Inl OperationalError"
proof -
  have "search_keyword env2 ''q'' ''workflows'' 10
     = [\<lparr>kw_content_id = 9, kw_content = ''keyword hit'', relevance = 0\<rparr>]"
    by (simp add: search_keyword_def split_ws_def lower_def lower_char_def is_upper_def
          is_space_def env2_def env0_def Let_def)
  moreover have "search_similar env2 ''q'' ''workflows'' 5 default_threshold state2
                   = Inl OperationalError"
    by (rule search_similar_raises)
  moreover have "hybrid_search env2 ''q'' ''workflows'' 5 1 0 state2 = Inl OperationalError"
    by (rule hybrid_search_raises)
  ultimately show ?thesis by (intro conjI)
qed

end
